theory Spec2Isabelle
  imports Main "HOL-Library.Sublist"
begin

section \<open>Python string primitives used by sukd.py\<close>

text \<open>
  The script runs its text through Python 3 \<^verbatim>\<open>str\<close> values. A \<^typ>\<open>string\<close> here is a
  sequence of code points below 256 (one \<^typ>\<open>char\<close> per code point), so \<^const>\<open>length\<close> is
  Python's \<^verbatim>\<open>len\<close>. Dictionaries keep insertion order, as Python 3.7 and later do.
\<close>

datatype py_error = IndexError | ValueError | AttributeError

text \<open>\<^verbatim>\<open>strlen_unicode(s) = len(s.encode('utf-8'))\<close>: a code point below 128 is one byte of
  UTF-8, the others below 256 are two.\<close>

definition utf8_width :: "char \<Rightarrow> nat" where
  "utf8_width c = (if (of_char c :: nat) < 128 then 1 else 2)"

definition strlen_unicode :: "string \<Rightarrow> nat" where
  "strlen_unicode s = sum_list (map utf8_width s)"

text \<open>\<^verbatim>\<open>str.isspace\<close> on the code points below 256: TAB, LF, VT, FF, CR, FS, GS, RS, US,
  SPACE, NEL and NBSP.\<close>

definition py_isspace :: "char \<Rightarrow> bool" where
  "py_isspace c = (c \<in> set [CHR 0x09, CHR 0x0A, CHR 0x0B, CHR 0x0C, CHR 0x0D,
     CHR 0x1C, CHR 0x1D, CHR 0x1E, CHR 0x1F, CHR 0x20, CHR 0x85, CHR 0xA0])"

text \<open>\<^verbatim>\<open>s.strip()\<close>\<close>

definition py_strip :: "string \<Rightarrow> string" where
  "py_strip s = rev (dropWhile py_isspace (rev (dropWhile py_isspace s)))"

text \<open>\<^verbatim>\<open>s.split()\<close>: the maximal runs of non-whitespace, in order.\<close>

fun py_split :: "string \<Rightarrow> string list" where
  "py_split [] = []"
| "py_split (c # cs) =
     (if py_isspace c then py_split cs
      else (case cs of
              [] \<Rightarrow> [[c]]
            | d # _ \<Rightarrow> if py_isspace d then [c] # py_split cs
                       else (case py_split cs of [] \<Rightarrow> [[c]] | w # ws \<Rightarrow> (c # w) # ws)))"

text \<open>\<^verbatim>\<open>s.split(sep)\<close> for a one-character separator: every occurrence splits, empty
  pieces are kept, and the result is never empty.\<close>

fun py_split_on :: "char \<Rightarrow> string \<Rightarrow> string list" where
  "py_split_on sep [] = [[]]"
| "py_split_on sep (c # cs) =
     (if c = sep then [] # py_split_on sep cs
      else (case py_split_on sep cs of [] \<Rightarrow> [[c]] | w # ws \<Rightarrow> (c # w) # ws))"

text \<open>\<^verbatim>\<open>xs[i]\<close> for a non-negative index: IndexError out of range.\<close>

definition py_getitem :: "'a list \<Rightarrow> nat \<Rightarrow> py_error + 'a" where
  "py_getitem xs i = (if i < length xs then Inr (xs ! i) else Inl IndexError)"

text \<open>\<^verbatim>\<open>get_string_index(string, index) = str.index(string, index)\<close> for a one-character
  needle: the position of its first occurrence, ValueError when there is none.\<close>

definition get_string_index :: "string \<Rightarrow> char \<Rightarrow> py_error + nat" where
  "get_string_index s c =
     (if c \<in> set s then Inr (length (takeWhile (\<lambda>x. x \<noteq> c) s)) else Inl ValueError)"

text \<open>Iterating over \<^verbatim>\<open>io.StringIO(text)\<close>: the lines of the text, each with its
  terminating LF when it has one.\<close>

fun stream_lines :: "string \<Rightarrow> string list" where
  "stream_lines [] = []"
| "stream_lines (c # cs) =
     (if c = CHR 0x0A then [c] # stream_lines cs
      else (case stream_lines cs of [] \<Rightarrow> [[c]] | l # ls \<Rightarrow> (c # l) # ls))"

text \<open>\<^verbatim>\<open>re.search(r".*\.deb$", s, re.IGNORECASE | re.UNICODE) is not None\<close>: the string ends
  with a dot and the letters d, e, b in either case; \<^verbatim>\<open>$\<close> also matches before one final LF.\<close>

definition ends_with_deb :: "string \<Rightarrow> bool" where
  "ends_with_deb s =
     (case rev s of
        b # e # d # dot # _ \<Rightarrow>
          dot = CHR ''.'' \<and> (d = CHR ''d'' \<or> d = CHR ''D'') \<and> (e = CHR ''e'' \<or> e = CHR ''E'')
            \<and> (b = CHR ''b'' \<or> b = CHR ''B'')
      | _ \<Rightarrow> False)"

definition re_search_deb :: "string \<Rightarrow> bool" where
  "re_search_deb s =
     (ends_with_deb s \<or> (s \<noteq> [] \<and> last s = CHR 0x0A \<and> ends_with_deb (butlast s)))"

section \<open>Session data\<close>

definition CHECKSUMS_FILE :: string where
  "CHECKSUMS_FILE = ''CHECKSUMS''"

text \<open>\<^verbatim>\<open>kernel_hashes_and_files\<close>: a dict from digest to file name, in insertion order.\<close>

type_synonym checksum_index = "(string \<times> string) list"

text \<open>\<^verbatim>\<open>d[k] = v\<close>: an existing key keeps its place and takes the new value, a new key goes
  to the end.\<close>

fun dict_set :: "checksum_index \<Rightarrow> string \<Rightarrow> string \<Rightarrow> checksum_index" where
  "dict_set [] k v = [(k, v)]"
| "dict_set ((k', v') # d) k v = (if k' = k then (k, v) # d else (k', v') # dict_set d k v)"

record tables =
  kernel_hashes_and_files :: checksum_index
  kernel_available_architectures :: "string list"

section \<open>Building the checksum tables (main, lines 822 to 835)\<close>

text \<open>One pass of the loop body over \<^verbatim>\<open>read_line\<close>. The dict is written before the
  architecture is cut out of the file name, so both index reads of the file name's parts
  can raise after the digest was accepted.\<close>

definition process_line :: "string \<Rightarrow> tables \<Rightarrow> py_error + tables" where
  "process_line read_line t =
     (let line = py_strip read_line in
      if re_search_deb line then
        (let kernel_hash_and_file = py_split line in
         case py_getitem kernel_hash_and_file 0 of
           Inl e \<Rightarrow> Inl e
         | Inr h \<Rightarrow>
             if strlen_unicode h = 40 then
               (case py_getitem kernel_hash_and_file 1 of
                  Inl e \<Rightarrow> Inl e
                | Inr f \<Rightarrow>
                    (let t1 = t\<lparr>kernel_hashes_and_files :=
                                 dict_set (kernel_hashes_and_files t) h f\<rparr> in
                     case py_getitem (py_split_on CHR ''_'' f) 2 of
                       Inl e \<Rightarrow> Inl e
                     | Inr seg \<Rightarrow>
                         (case py_getitem (py_split_on CHR ''.'' seg) 0 of
                            Inl e \<Rightarrow> Inl e
                          | Inr kernel_arch \<Rightarrow>
                              if kernel_arch \<notin> set (kernel_available_architectures t1)
                                 \<and> kernel_arch \<noteq> ''all''
                              then Inr (t1\<lparr>kernel_available_architectures :=
                                            kernel_available_architectures t1 @ [kernel_arch]\<rparr>)
                              else Inr t1)))
             else Inr t)
      else Inr t)"

fun process_lines :: "string list \<Rightarrow> tables \<Rightarrow> py_error + tables" where
  "process_lines [] t = Inr t"
| "process_lines (l # ls) t =
     (case process_line l t of Inl e \<Rightarrow> Inl e | Inr t' \<Rightarrow> process_lines ls t')"

text \<open>The loop with its preamble: the architecture list is emptied
  (\<^verbatim>\<open>del kernel_available_architectures[:]\<close>), the dict is not.\<close>

definition build_tables :: "string \<Rightarrow> checksum_index \<Rightarrow> py_error + tables" where
  "build_tables text idx =
     process_lines (stream_lines text)
       \<lparr>kernel_hashes_and_files = idx, kernel_available_architectures = []\<rparr>"

text \<open>The first pass of a session starts from the empty dict.\<close>

definition parse_manifest :: "string \<Rightarrow> py_error + tables" where
  "parse_manifest text = build_tables text []"

section \<open>Deriving the flavors of the chosen architecture (main, lines 883 to 893)\<close>

text \<open>The loop of \<^verbatim>\<open>find_position_of_nth_string_occurence\<close>: \<^verbatim>\<open>index\<close> and \<^verbatim>\<open>count\<close> are
  the loop's variables, and falling off the end returns 0.\<close>

fun find_loop :: "string \<Rightarrow> char \<Rightarrow> nat \<Rightarrow> nat \<Rightarrow> nat \<Rightarrow> nat" where
  "find_loop [] ch nthpos index count = 0"
| "find_loop (c # cs) ch nthpos index count =
     (if c = ch
      then (if count + 1 = nthpos then index
            else find_loop cs ch nthpos (index + 1) (count + 1))
      else find_loop cs ch nthpos (index + 1) count)"

definition find_position_of_nth_string_occurence :: "string \<Rightarrow> char \<Rightarrow> nat \<Rightarrow> nat" where
  "find_position_of_nth_string_occurence targetstr ch nthpos =
     (if strlen_unicode targetstr = 0 then 0 else find_loop targetstr ch nthpos 0 0)"

text \<open>Lines 889 to 891: the start position is the finder's result plus one, the flavor runs
  from there to the next underscore, and \<^verbatim>\<open>str.index\<close> raises when there is none.\<close>

definition startpos_kernel_flavor :: "string \<Rightarrow> nat" where
  "startpos_kernel_flavor kernel_file =
     find_position_of_nth_string_occurence kernel_file CHR ''-'' 4 + 1"

definition extract_flavor :: "string \<Rightarrow> py_error + string" where
  "extract_flavor kernel_file =
     (let flavor = drop (startpos_kernel_flavor kernel_file) kernel_file in
      case get_string_index flavor CHR ''_'' of
        Inl e \<Rightarrow> Inl e
      | Inr i \<Rightarrow> Inr (take i flavor))"

text \<open>The loop over \<^verbatim>\<open>kernel_hashes_and_files.items()\<close>; both tests of line 887 are
  substring tests (\<^verbatim>\<open>in\<close>).\<close>

fun collect_flavors :: "string \<Rightarrow> checksum_index \<Rightarrow> string list \<Rightarrow> py_error + string list" where
  "collect_flavors arch [] flavors = Inr flavors"
| "collect_flavors arch ((kernel_hash, kernel_file) # items) flavors =
     (if \<not> sublist ''_all.deb'' kernel_file \<and> sublist arch kernel_file then
        (case extract_flavor kernel_file of
           Inl e \<Rightarrow> Inl e
         | Inr flavor \<Rightarrow>
             collect_flavors arch items
               (if flavor \<notin> set flavors then flavors @ [flavor] else flavors))
      else collect_flavors arch items flavors)"

definition kernel_available_flavors :: "string \<Rightarrow> checksum_index \<Rightarrow> py_error + string list" where
  "kernel_available_flavors kernel_selected_target_arch idx =
     collect_flavors kernel_selected_target_arch idx []"

section \<open>Downloading (main, lines 957 to 1039)\<close>

text \<open>The test of lines 990 to 992 on one file name of the dict.\<close>

definition selected_for_download :: "string \<Rightarrow> string \<Rightarrow> string \<Rightarrow> bool" where
  "selected_for_download arch flavor kernel_deb_file =
     (suffix ''_all.deb'' kernel_deb_file
      \<or> (suffix (''_'' @ arch @ ''.deb'') kernel_deb_file
          \<and> sublist (''-'' @ flavor @ ''_'') kernel_deb_file))"

definition destination_full_path :: "string \<Rightarrow> string \<Rightarrow> string" where
  "destination_full_path full_download_location file = full_download_location @ ''/'' @ file"

text \<open>What the outside world does with one file: whether \<^verbatim>\<open>download_file\<close> returns True,
  the size of the file at the destination afterwards (None when there is no file), and the first
  token the digest tool prints (None when it prints nothing or cannot run, which is when
  \<^verbatim>\<open>execute_process_wait_get_output\<close> returns None).\<close>

record transfer =
  download_ok :: bool
  size_on_disk :: "nat option"
  sha1_output :: "string option"

text \<open>\<^verbatim>\<open>get_file_size\<close>: the handler reads \<^verbatim>\<open>err.message\<close>, which a Python 3 exception
  does not have, so a missing file raises AttributeError out of the handler.\<close>

definition get_file_size :: "transfer \<Rightarrow> py_error + nat" where
  "get_file_size tr = (case size_on_disk tr of None \<Rightarrow> Inl AttributeError | Some n \<Rightarrow> Inr n)"

text \<open>\<^verbatim>\<open>s.lower()\<close> on the code points below 256: the letters A to Z and the accented
  capitals from 192 to 222 (not the multiplication sign 215) move up by 32.\<close>

definition lower_char :: "char \<Rightarrow> char" where
  "lower_char c =
     (let n = (of_char c :: nat) in
      if (65 \<le> n \<and> n \<le> 90) \<or> (192 \<le> n \<and> n \<le> 222 \<and> n \<noteq> 215) then char_of (n + 32) else c)"

definition py_lower :: "string \<Rightarrow> string" where
  "py_lower s = map lower_char s"

text \<open>Lines 1026 to 1037: \<^verbatim>\<open>local_sha1_checksum.lower()\<close> raises AttributeError on None;
  otherwise the comparison only chooses the message, True for "OK. File is valid.".\<close>

definition validate_checksum :: "transfer \<Rightarrow> string \<Rightarrow> py_error + bool" where
  "validate_checksum tr kernel_hash_key =
     (case sha1_output tr of
        None \<Rightarrow> Inl AttributeError
      | Some local_sha1_checksum \<Rightarrow> Inr (py_lower local_sha1_checksum = py_lower kernel_hash_key))"

text \<open>The body of the download loop for one selected file: the destination is appended to
  \<^verbatim>\<open>user_downloaded_kernel_deb_files\<close> only on success, then size and checksum are reported
  whatever the download did.\<close>

definition fetch_file ::
  "transfer \<Rightarrow> string \<Rightarrow> string \<Rightarrow> string list \<Rightarrow> py_error + string list" where
  "fetch_file tr kernel_hash_key destination downloaded =
     (let downloaded' = (if download_ok tr then downloaded @ [destination] else downloaded) in
      case get_file_size tr of
        Inl e \<Rightarrow> Inl e
      | Inr n \<Rightarrow>
          (case validate_checksum tr kernel_hash_key of
             Inl e \<Rightarrow> Inl e
           | Inr valid \<Rightarrow> Inr downloaded'))"

fun fetch_loop ::
  "(string \<Rightarrow> transfer) \<Rightarrow> string \<Rightarrow> string \<Rightarrow> string \<Rightarrow> checksum_index \<Rightarrow> string list
     \<Rightarrow> py_error + string list" where
  "fetch_loop world loc arch flavor [] downloaded = Inr downloaded"
| "fetch_loop world loc arch flavor ((kernel_hash_key, kernel_deb_file) # items) downloaded =
     (if selected_for_download arch flavor kernel_deb_file then
        (case fetch_file (world kernel_deb_file) kernel_hash_key
                (destination_full_path loc kernel_deb_file) downloaded of
           Inl e \<Rightarrow> Inl e
         | Inr downloaded' \<Rightarrow> fetch_loop world loc arch flavor items downloaded')
      else fetch_loop world loc arch flavor items downloaded)"

text \<open>Lines 957 to 1039: the list is emptied, the CHECKSUMS file is fetched first and its size
  printed, then the loop runs over the dict.\<close>

definition download_files ::
  "(string \<Rightarrow> transfer) \<Rightarrow> string \<Rightarrow> string \<Rightarrow> string \<Rightarrow> checksum_index
     \<Rightarrow> py_error + string list" where
  "download_files world loc arch flavor idx =
     (let tr = world CHECKSUMS_FILE;
          downloaded = (if download_ok tr then [destination_full_path loc CHECKSUMS_FILE] else [])
      in case get_file_size tr of
           Inl e \<Rightarrow> Inl e
         | Inr n \<Rightarrow> fetch_loop world loc arch flavor idx downloaded)"

section \<open>Exceptions, prompts and the exit status\<close>

text \<open>What can travel up to the \<^verbatim>\<open>try\<close> of main: \<^verbatim>\<open>SystemExit\<close> from \<^verbatim>\<open>sys.exit\<close>,
  \<^verbatim>\<open>KeyboardInterrupt\<close>, the script's own \<^verbatim>\<open>WebFileDownloadError\<close>, and any other
  exception, which is a subclass of \<^verbatim>\<open>Exception\<close>; its field is the \<^verbatim>\<open>message\<close> attribute
  when the exception object has one (Python 2) and None when it has not (Python 3).\<close>

datatype exn = SystemExit int | KeyboardInterrupt | WebFileDownloadError | Fault "string option"

datatype outcome = Returned | Raised exn

definition exit_script :: "int \<Rightarrow> outcome" where
  "exit_script n = Raised (SystemExit n)"

text \<open>A built-in error raised by the Python 3 interpreter carries no \<^verbatim>\<open>message\<close>.\<close>

definition raise_error :: "py_error \<Rightarrow> outcome" where
  "raise_error e = Raised (Fault None)"

datatype reply = Yes | No | Abort

definition YES_PRESSED :: nat where "YES_PRESSED = 1"
definition NO_PRESSED :: nat where "NO_PRESSED = 2"
definition CANCEL_PRESSED :: nat where "CANCEL_PRESSED = 0"
definition ABORT_PRESSED :: nat where "ABORT_PRESSED = CANCEL_PRESSED"

text \<open>\<^verbatim>\<open>request_user_yes_no_abort_script\<close> on the first valid line the user enters (invalid
  lines are asked again): abort leaves through \<^verbatim>\<open>exit_script(1)\<close>, so the function only ever
  returns \<^verbatim>\<open>YES_PRESSED\<close> or \<^verbatim>\<open>NO_PRESSED\<close>.\<close>

definition request_user_yes_no_abort_script :: "reply \<Rightarrow> exn + nat" where
  "request_user_yes_no_abort_script r =
     (case r of Abort \<Rightarrow> Inl (SystemExit 1) | Yes \<Rightarrow> Inr YES_PRESSED | No \<Rightarrow> Inr NO_PRESSED)"

section \<open>After the batch (main, lines 1041 to 1165)\<close>

text \<open>The test of line 1045, on \<^verbatim>\<open>user_downloaded_kernel_deb_files\<close>; \<^verbatim>\<open>in\<close> on a list
  compares whole elements.\<close>

definition nothing_downloaded :: "string list \<Rightarrow> bool" where
  "nothing_downloaded files =
     (let downloaded_kernel_deb_files_count = length files in
      downloaded_kernel_deb_files_count = 0
      \<or> (downloaded_kernel_deb_files_count = 1 \<and> CHECKSUMS_FILE \<in> set files))"

text \<open>\<^verbatim>\<open>os.path.basename\<close>: what follows the last slash.\<close>

definition basename :: "string \<Rightarrow> string" where
  "basename p = rev (takeWhile (\<lambda>c. c \<noteq> CHR ''/'') (rev p))"

text \<open>Where main goes after the download loop: out through \<^verbatim>\<open>exit_script(0)\<close> with the
  message that nothing was downloaded, on to the installation prompt with the list sorted by
  \<^verbatim>\<open>sort(key=len)\<close> (a stable sort) when the effective user id is 0, or straight to the
  question whether to run again.\<close>

datatype after_batch = Nothing_downloaded outcome | Install_offered "string list" | Not_root

definition after_download :: "nat \<Rightarrow> string list \<Rightarrow> after_batch" where
  "after_download euid files =
     (if nothing_downloaded files then Nothing_downloaded (exit_script 0)
      else if euid = 0 then Install_offered (sort_key length files)
      else Not_root)"

text \<open>One probe of the dpkg lock file; when it is held the user is asked, and the probe carries
  the reply.\<close>

datatype probe = Unlocked | Locked reply

datatype waited = Go bool | Stop exn | Starved

text \<open>The \<^verbatim>\<open>while dpkg_file_is_locked\<close> loop of lines 1092 to 1122 over the probes still to
  come. \<^verbatim>\<open>Go\<close> carries \<^verbatim>\<open>exit_installation\<close>; \<^verbatim>\<open>Starved\<close> is the loop still waiting when
  the probes run out, which is how a loop that retries for ever shows here.\<close>

fun wait_for_lock :: "probe list \<Rightarrow> waited \<times> probe list" where
  "wait_for_lock [] = (Starved, [])"
| "wait_for_lock (Unlocked # ps) = (Go False, ps)"
| "wait_for_lock (Locked r # ps) =
     (case request_user_yes_no_abort_script r of
        Inl e \<Rightarrow> (Stop e, ps)
      | Inr user_selection_number \<Rightarrow>
          if user_selection_number = NO_PRESSED then (Go True, ps)
          else if user_selection_number = ABORT_PRESSED then (Stop (SystemExit 0), ps)
          else wait_for_lock ps)"

record install_state =
  dpkg_calls :: "string list"
  error_occurred :: nat
  last_error_code :: int
  exit_installation :: bool

datatype ending = Completed | Exited exn | Waiting

text \<open>\<^verbatim>\<open>quote\<close> (\<^verbatim>\<open>shlex.quote\<close>, or \<^verbatim>\<open>pipes.quote\<close>): the empty string becomes two single
  quotes; a string of letters, digits and the characters \<^verbatim>\<open>_@%+=:,./-\<close> only is returned as
  it is; any other string is wrapped in single quotes, each single quote inside it replaced by
  the five characters quote, double quote, quote, double quote, quote.\<close>

definition shell_safe :: "char \<Rightarrow> bool" where
  "shell_safe c =
     (c \<in> set ''abcdefghijklmnopqrstuvwxyzABCDEFGHIJKLMNOPQRSTUVWXYZ0123456789_@%+=:,./-'')"

definition escape_single_quotes :: "string \<Rightarrow> string" where
  "escape_single_quotes s =
     concat (map (\<lambda>c. if c = CHR 0x27
                        then [CHR 0x27, CHR 0x22, CHR 0x27, CHR 0x22, CHR 0x27] else [c]) s)"

definition quote :: "string \<Rightarrow> string" where
  "quote s =
     (if s = [] then [CHR 0x27, CHR 0x27]
      else if list_all shell_safe s then s
      else [CHR 0x27] @ escape_single_quotes s @ [CHR 0x27])"

text \<open>The \<^verbatim>\<open>for deb_file_name in user_downloaded_kernel_deb_files\<close> loop of lines 1088 to
  1139. The package tool is run without a shell on the argument list of line 1134, whose last
  element is \<^verbatim>\<open>quote(deb_file_name)\<close>: \<^verbatim>\<open>dpkg\<close> gives the exit code of the tool on that
  argument, and \<^verbatim>\<open>dpkg_calls\<close> records the arguments handed to it, in order.\<close>

fun install_loop ::
  "(string \<Rightarrow> int) \<Rightarrow> probe list \<Rightarrow> string list \<Rightarrow> install_state \<Rightarrow> install_state \<times> ending" where
  "install_loop dpkg ps [] st = (st, Completed)"
| "install_loop dpkg ps (deb_file_name # rest) st =
     (case wait_for_lock ps of
        (Starved, ps') \<Rightarrow> (st, Waiting)
      | (Stop e, ps') \<Rightarrow> (st, Exited e)
      | (Go True, ps') \<Rightarrow> (st\<lparr>exit_installation := True\<rparr>, Completed)
      | (Go False, ps') \<Rightarrow>
          (let file_name = basename deb_file_name in
           if file_name \<noteq> CHECKSUMS_FILE then
             (let error_code = dpkg (quote deb_file_name);
                  st1 = st\<lparr>dpkg_calls := dpkg_calls st @ [quote deb_file_name]\<rparr>;
                  st2 = (if error_code \<noteq> 0
                         then st1\<lparr>last_error_code := error_code,
                                  error_occurred := error_occurred st1 + 1\<rparr>
                         else st1)
              in install_loop dpkg ps' rest st2)
           else install_loop dpkg ps' rest st))"

text \<open>Lines 1070 to 1139 once the user has agreed to install: sort, then the loop from a fresh
  state.\<close>

definition install_files :: "(string \<Rightarrow> int) \<Rightarrow> probe list \<Rightarrow> string list \<Rightarrow> install_state \<times> ending" where
  "install_files dpkg ps files =
     install_loop dpkg ps (sort_key length files)
       \<lparr>dpkg_calls = [], error_occurred = 0, last_error_code = 0, exit_installation = False\<rparr>"

section \<open>The try statement of main (lines 743 and 1181 to 1203)\<close>

text \<open>Python's \<^verbatim>\<open>try ... except ... finally\<close>: an exception of the body goes to the first
  clause that matches it, the \<^verbatim>\<open>finally\<close> block runs whatever happened, and an exception raised
  by the \<^verbatim>\<open>finally\<close> block replaces the one that was on its way.\<close>

definition try_except_finally ::
  "outcome \<Rightarrow> (exn \<Rightarrow> outcome option) \<Rightarrow> outcome \<Rightarrow> outcome" where
  "try_except_finally body handlers final =
     (let pending = (case body of
                       Returned \<Rightarrow> Returned
                     | Raised e \<Rightarrow> (case handlers e of None \<Rightarrow> Raised e | Some r \<Rightarrow> r))
      in case final of Returned \<Rightarrow> pending | Raised e' \<Rightarrow> Raised e')"

text \<open>The three \<^verbatim>\<open>except\<close> clauses. \<^verbatim>\<open>SystemExit\<close> is no subclass of \<^verbatim>\<open>Exception\<close> and
  matches none. The last clause reads \<^verbatim>\<open>e.message\<close> before it gets to \<^verbatim>\<open>exit_script(1)\<close>,
  which raises AttributeError when the attribute is missing.\<close>

definition main_except :: "exn \<Rightarrow> outcome option" where
  "main_except e =
     (case e of
        WebFileDownloadError \<Rightarrow> Some (exit_script 1)
      | KeyboardInterrupt \<Rightarrow> Some (exit_script 1)
      | Fault None \<Rightarrow> Some (raise_error AttributeError)
      | Fault (Some m) \<Rightarrow> Some (exit_script 1)
      | SystemExit n \<Rightarrow> None)"

text \<open>The \<^verbatim>\<open>finally\<close> block: the spinner is stopped, then \<^verbatim>\<open>exit_script(0)\<close>.\<close>

definition main_finally :: outcome where
  "main_finally = exit_script 0"

definition main_try :: "outcome \<Rightarrow> outcome" where
  "main_try body = try_except_finally body main_except main_finally"

text \<open>The status the process ends with: the argument of \<^verbatim>\<open>sys.exit\<close> as the operating
  system keeps it, 0 when main returns, 1 for an exception nobody caught.\<close>

definition exit_status :: "outcome \<Rightarrow> int" where
  "exit_status r =
     (case r of Returned \<Rightarrow> 0 | Raised (SystemExit n) \<Rightarrow> n mod 256 | Raised _ \<Rightarrow> 1)"

section \<open>Sample sessions\<close>

text \<open>A release with one package for \<^verbatim>\<open>arm\<close> and one for \<^verbatim>\<open>arm64\<close>.\<close>

definition two_arch_manifest :: string where
  "two_arch_manifest =
     ''0123456789abcdef0123456789abcdef01234567  linux-image-4.9.6-040906-generic_4.9.6_arm.deb\<newline>'' @
     ''1123456789abcdef0123456789abcdef01234567  linux-image-4.9.6-040906-lpae_4.9.6_arm64.deb\<newline>''"

definition two_arch_index :: checksum_index where
  "two_arch_index =
     [(''0123456789abcdef0123456789abcdef01234567'',
       ''linux-image-4.9.6-040906-generic_4.9.6_arm.deb''),
      (''1123456789abcdef0123456789abcdef01234567'',
       ''linux-image-4.9.6-040906-lpae_4.9.6_arm64.deb'')]"

text \<open>A dict with one package of the chosen architecture and flavor and the package for all
  architectures, and a world in which the first download fails and leaves no file behind while
  every other download succeeds.\<close>

definition two_file_index :: checksum_index where
  "two_file_index =
     [(''0123456789abcdef0123456789abcdef01234567'',
       ''linux-image-4.9.6-040906-generic_4.9.6_arm.deb''),
      (''1123456789abcdef0123456789abcdef01234567'',
       ''linux-headers-4.9.6-040906_4.9.6_all.deb'')]"

definition failing_world :: "string \<Rightarrow> transfer" where
  "failing_world file =
     (if file = ''linux-image-4.9.6-040906-generic_4.9.6_arm.deb''
      then \<lparr>download_ok = False, size_on_disk = None, sha1_output = None\<rparr>
      else \<lparr>download_ok = True, size_on_disk = Some 1024,
             sha1_output = Some ''1123456789abcdef0123456789abcdef01234567''\<rparr>)"

text \<open>A world in which only the manifest file comes through: every package download fails and
  leaves an empty file, whose digest the digest tool prints.\<close>

definition stale_world :: "string \<Rightarrow> transfer" where
  "stale_world file =
     (if file = CHECKSUMS_FILE
      then \<lparr>download_ok = True, size_on_disk = Some 512, sha1_output = None\<rparr>
      else \<lparr>download_ok = False, size_on_disk = Some 0,
             sha1_output = Some ''da39a3ee5e6b4b0d3255bfef95601890afd80709''\<rparr>)"


text \<open>A line whose first token is twenty times the letter e with acute accent (code point 233),
  and a line whose file name has fewer than four dashes.\<close>

definition accented_manifest :: string where
  "accented_manifest = replicate 20 (CHR 0xE9) @ ''  linux-image_4.9.6_amd64.deb\<newline>''"

definition dashless_manifest :: string where
  "dashless_manifest =
     ''0123456789abcdef0123456789abcdef01234567  ab_c_amd64.deb\<newline># mirror note\<newline>''"

text \<open>The release of the end-to-end scenario, for any four digests: one package for all
  architectures, two packages for \<^verbatim>\<open>amd64\<close> in the flavor \<^verbatim>\<open>generic\<close>, and a fourth line
  that is to carry the malformed digest. A line is the digest, two blanks, the file name and LF.\<close>

definition manifest_line :: "string \<Rightarrow> string \<Rightarrow> string" where
  "manifest_line digest file = digest @ ''  '' @ file @ [CHR 0x0A]"

definition scenario_release :: "string \<Rightarrow> string \<Rightarrow> string \<Rightarrow> string \<Rightarrow> string" where
  "scenario_release d1 d2 d3 d4 =
     manifest_line d1 ''linux-headers-4.9.6-040906_4.9.6_all.deb'' @
     manifest_line d2 ''linux-headers-4.9.6-040906-generic_4.9.6_amd64.deb'' @
     manifest_line d3 ''linux-image-4.9.6-040906-generic_4.9.6_amd64.deb'' @
     manifest_line d4 ''linux-image-4.9.6-040906-lowlatency_4.9.6_amd64.deb''"

text \<open>The packages of that release that are kept, the dict they make with their digests, and a
  world in which every download succeeds.\<close>

definition scenario_packages :: "string list" where
  "scenario_packages =
     [''linux-headers-4.9.6-040906_4.9.6_all.deb'',
      ''linux-headers-4.9.6-040906-generic_4.9.6_amd64.deb'',
      ''linux-image-4.9.6-040906-generic_4.9.6_amd64.deb'']"

definition scenario_index :: "string \<Rightarrow> string \<Rightarrow> string \<Rightarrow> checksum_index" where
  "scenario_index d1 d2 d3 = zip [d1, d2, d3] scenario_packages"

definition obliging_world :: "string \<Rightarrow> transfer" where
  "obliging_world file =
     \<lparr>download_ok = True, size_on_disk = Some 1024,
      sha1_output = Some ''0123456789abcdef0123456789abcdef01234567''\<rparr>"

text \<open>A token of \<^verbatim>\<open>split()\<close>: not empty and free of whitespace.\<close>

definition is_word :: "string \<Rightarrow> bool" where
  "is_word w = (w \<noteq> [] \<and> list_all (\<lambda>c. \<not> py_isspace c) w)"


text \<open>The file names of a finished batch.\<close>

definition sample_downloads :: "string list" where
  "sample_downloads =
     [''CHECKSUMS'', ''linux-image-4.9.6-generic_4.9.6_amd64.deb'',
      ''linux-headers-4.9.6_4.9.6_all.deb'']"


section \<open>Properties\<close>

subsection \<open>Exit status\<close>

text \<open>
  C10. Once the \<^verbatim>\<open>try\<close> block of main is entered, the process ends with status 0 whatever
  the body did: it returned, it left through \<^verbatim>\<open>exit_script\<close> with any status (the prompts'
  abort, the empty release), or it raised KeyboardInterrupt, WebFileDownloadError or any other
  exception. The \<^verbatim>\<open>finally\<close> block raises \<^verbatim>\<open>SystemExit(0)\<close>, which replaces whatever the body
  or an \<^verbatim>\<open>except\<close> clause had raised.
\<close>

theorem main_try_always_exits_zero: "exit_status (main_try body) = 0"
  by (simp add: main_try_def try_except_finally_def main_finally_def exit_script_def
      exit_status_def)

text \<open>
  C3. The claim is that an interrupt and an internal fault end the process with a non-zero
  status. The \<^verbatim>\<open>except\<close> clauses do call \<^verbatim>\<open>exit_script(1)\<close>, for KeyboardInterrupt and for
  an exception that has a message; the status of the process is 0 all the same, for these and
  for an exception without a message.
\<close>

theorem interrupt_and_fault_exit_zero:
  "main_except KeyboardInterrupt = Some (Raised (SystemExit 1))
   \<and> exit_status (main_try (Raised KeyboardInterrupt)) = 0
   \<and> main_except (Fault (Some ''disk full'')) = Some (Raised (SystemExit 1))
   \<and> exit_status (main_try (Raised (Fault (Some ''disk full'')))) = 0
   \<and> exit_status (main_try (Raised (Fault None))) = 0"
  by (simp add: main_try_def try_except_finally_def main_finally_def exit_script_def
      exit_status_def main_except_def)

subsection \<open>The report after the batch\<close>

lemma destination_not_bare: "destination_full_path loc file \<noteq> file"
proof
  assume "destination_full_path loc file = file"
  then have "length (destination_full_path loc file) = length file" by simp
  then show False by (simp add: destination_full_path_def)
qed

lemma nothing_downloaded_empty: "after_download euid [] = Nothing_downloaded (exit_script 0)"
  by (simp add: after_download_def nothing_downloaded_def)

text \<open>
  C1. The claim is that a list holding only the manifest file ends the session with the message
  that nothing was downloaded. The list holds destination paths, and the path of the manifest
  file is never the bare name \<^verbatim>\<open>CHECKSUMS\<close> that line 1045 looks for: with that one entry the
  test fails and a root user is offered the installation. Such a list is what the download
  loop returns when only the manifest file came through and every failed package download left
  an empty file behind.
\<close>

theorem lone_manifest_still_offers_install:
  "\<not> nothing_downloaded [destination_full_path loc CHECKSUMS_FILE]
   \<and> after_download 0 [destination_full_path loc CHECKSUMS_FILE]
       = Install_offered [destination_full_path loc CHECKSUMS_FILE]
   \<and> download_files stale_world ''/dl'' ''arm'' ''generic'' two_file_index
       = Inr [destination_full_path ''/dl'' CHECKSUMS_FILE]"
proof -
  have "CHECKSUMS_FILE \<noteq> destination_full_path loc CHECKSUMS_FILE"
    using destination_not_bare [of loc CHECKSUMS_FILE] by simp
  then have "\<not> nothing_downloaded [destination_full_path loc CHECKSUMS_FILE]
     \<and> after_download 0 [destination_full_path loc CHECKSUMS_FILE]
         = Install_offered [destination_full_path loc CHECKSUMS_FILE]"
    by (simp add: nothing_downloaded_def after_download_def)
  moreover have "download_files stale_world ''/dl'' ''arm'' ''generic'' two_file_index
       = Inr [destination_full_path ''/dl'' CHECKSUMS_FILE]"
    by code_simp
  ultimately show ?thesis by simp
qed

subsection \<open>Building the tables\<close>

text \<open>
  C5. The claim is that the parser returns on every text. A line that is one 40-character token
  ending in \<^verbatim>\<open>.deb\<close> has no second token, and a file name without two underscores has no
  third segment: on both the loop raises IndexError.
\<close>

theorem parse_manifest_raises_on_short_lines:
  "parse_manifest ''aaaaaaaaaaaaaaaaaaaaaaaaaaaaaaaaaaaa.deb\<newline>'' = Inl IndexError
   \<and> parse_manifest ''0123456789abcdef0123456789abcdef01234567  linux.deb\<newline>''
       = Inl IndexError"
  by code_simp

text \<open>Where the entries of the dict come from: an entry after a line is an entry from before
  it, or the first two tokens of that line, which then passed both tests and whose file name has
  the two underscores that the architecture is read behind.\<close>

lemma length_py_split_on: "length (py_split_on sep s) = count_list s sep + 1"
  by (induction s) (auto split: list.splits)

lemma dict_set_mem:
  "(k', v') \<in> set (dict_set d k v) \<Longrightarrow> (k', v') \<in> set d \<or> (k', v') = (k, v)"
  by (induction d k v rule: dict_set.induct) (auto split: if_splits)

lemma process_line_entry:
  assumes "process_line l t = Inr t'" and "(h, f) \<in> set (kernel_hashes_and_files t')"
  shows "(h, f) \<in> set (kernel_hashes_and_files t)
         \<or> (re_search_deb (py_strip l)
            \<and> py_getitem (py_split (py_strip l)) 0 = Inr h
            \<and> py_getitem (py_split (py_strip l)) 1 = Inr f
            \<and> strlen_unicode h = 40
            \<and> 2 \<le> count_list f CHR ''_'')"
  using assms
  by (auto simp: process_line_def Let_def py_getitem_def length_py_split_on
      split: if_splits sum.splits dest!: dict_set_mem)

lemma process_lines_entry:
  assumes "process_lines ls t = Inr t'" and "(h, f) \<in> set (kernel_hashes_and_files t')"
  shows "(h, f) \<in> set (kernel_hashes_and_files t)
         \<or> (\<exists>l \<in> set ls. re_search_deb (py_strip l)
            \<and> py_getitem (py_split (py_strip l)) 0 = Inr h
            \<and> py_getitem (py_split (py_strip l)) 1 = Inr f
            \<and> strlen_unicode h = 40
            \<and> 2 \<le> count_list f CHR ''_'')"
  using assms
proof (induction ls arbitrary: t)
  case Nil
  then show ?case by simp
next
  case (Cons l ls)
  from Cons.prems(1) obtain t1 where l: "process_line l t = Inr t1"
    and ls: "process_lines ls t1 = Inr t'"
    by (auto split: sum.splits)
  from Cons.IH [OF ls Cons.prems(2)] show ?case
    using process_line_entry [OF l, of h f] by auto
qed

text \<open>Splitting at whitespace: a text that ends in a word, after nothing or after
  whitespace, has that word as its last token.\<close>

lemma py_split_word:
  "w \<noteq> [] \<Longrightarrow> \<forall>c \<in> set w. \<not> py_isspace c \<Longrightarrow> py_split w = [w]"
proof (induction w)
  case Nil
  then show ?case by simp
next
  case (Cons c w)
  then show ?case by (cases w) auto
qed

lemma py_split_starts:
  "\<not> py_isspace c \<Longrightarrow> py_split (c # cs) \<noteq> []"
  by (auto split: list.splits)

lemma py_split_snoc_word:
  assumes "w \<noteq> []" and "\<forall>c \<in> set w. \<not> py_isspace c"
    and "u = [] \<or> py_isspace (last u)"
  shows "py_split (u @ w) = py_split u @ [w]"
  using assms(3)
proof (induction u)
  case Nil
  then show ?case using assms(1,2) by (simp add: py_split_word)
next
  case (Cons c u)
  have tail: "u = [] \<or> py_isspace (last u)" using Cons.prems by (auto split: if_splits)
  note IH = Cons.IH [OF tail]
  show ?case
  proof (cases "py_isspace c")
    case True
    then show ?thesis using IH by simp
  next
    case False
    then obtain d u' where u: "u = d # u'" using Cons.prems by (cases u) auto
    show ?thesis
    proof (cases "py_isspace d")
      case True
      then show ?thesis using False IH u by simp
    next
      case nd: False
      then obtain w0 ws where sp: "py_split u = w0 # ws"
        using py_split_starts [of d u'] u by (cases "py_split u") auto
      then show ?thesis using False nd IH u by simp
    qed
  qed
qed

lemma py_strip_last: "py_strip s \<noteq> [] \<Longrightarrow> \<not> py_isspace (last (py_strip s))"
proof -
  assume ne: "py_strip s \<noteq> []"
  let ?r = "dropWhile py_isspace (rev (dropWhile py_isspace s))"
  from ne have r: "?r \<noteq> []" by (simp add: py_strip_def)
  then have "\<not> py_isspace (hd ?r)" by (rule hd_dropWhile)
  moreover have "last (py_strip s) = hd ?r" using r by (simp add: py_strip_def last_rev)
  ultimately show ?thesis by simp
qed

lemma ends_with_deb_not_empty: "ends_with_deb s \<Longrightarrow> s \<noteq> []"
  by (auto simp: ends_with_deb_def)

lemma re_search_deb_stripped: "re_search_deb (py_strip l) = ends_with_deb (py_strip l)"
proof -
  have "py_isspace (CHR 0x0A)" by (simp add: py_isspace_def)
  then have "py_strip l \<noteq> [] \<Longrightarrow> last (py_strip l) \<noteq> CHR 0x0A"
    using py_strip_last [of l] by auto
  then show ?thesis by (auto simp: re_search_deb_def)
qed

lemma ends_with_deb_last_word:
  assumes "ends_with_deb s"
  shows "ends_with_deb (rev (takeWhile (\<lambda>c. \<not> py_isspace c) (rev s)))"
proof -
  from assms obtain b e d dot r where r: "rev s = b # e # d # dot # r"
    and c: "dot = CHR ''.''" "d = CHR ''d'' \<or> d = CHR ''D''" "e = CHR ''e'' \<or> e = CHR ''E''"
      "b = CHR ''b'' \<or> b = CHR ''B''"
    by (auto simp: ends_with_deb_def split: list.splits)
  have "\<not> py_isspace b" "\<not> py_isspace e" "\<not> py_isspace d" "\<not> py_isspace dot"
    using c by (auto simp: py_isspace_def)
  then have "takeWhile (\<lambda>c. \<not> py_isspace c) (rev s)
      = b # e # d # dot # takeWhile (\<lambda>c. \<not> py_isspace c) r"
    by (simp add: r)
  then show ?thesis using c by (simp add: ends_with_deb_def)
qed

lemma last_py_split:
  assumes "s \<noteq> []" and "\<not> py_isspace (last s)"
  shows "py_split s \<noteq> [] \<and> last (py_split s) = rev (takeWhile (\<lambda>c. \<not> py_isspace c) (rev s))"
proof -
  let ?w = "rev (takeWhile (\<lambda>c. \<not> py_isspace c) (rev s))"
  let ?u = "rev (dropWhile (\<lambda>c. \<not> py_isspace c) (rev s))"
  have s: "s = ?u @ ?w"
    by (metis rev_append rev_rev_ident takeWhile_dropWhile_id)
  have "rev s \<noteq> []" "\<not> py_isspace (hd (rev s))" using assms by (simp_all add: hd_rev)
  then have w: "?w \<noteq> []" by (cases "rev s") auto
  have nw: "\<forall>c \<in> set ?w. \<not> py_isspace c" by (auto dest: set_takeWhileD)
  have u: "?u = [] \<or> py_isspace (last ?u)"
  proof (cases "dropWhile (\<lambda>c. \<not> py_isspace c) (rev s) = []")
    case True
    then show ?thesis by simp
  next
    case False
    then have "\<not> \<not> py_isspace (hd (dropWhile (\<lambda>c. \<not> py_isspace c) (rev s)))"
      by (rule hd_dropWhile)
    then show ?thesis using False by (simp add: last_rev)
  qed
  have "py_split (?u @ ?w) = py_split ?u @ [?w]" by (rule py_split_snoc_word [OF w nw u])
  then have "py_split s = py_split ?u @ [?w]" using s by simp
  then show ?thesis by simp
qed

lemma last_token_ends_with_deb:
  assumes "ends_with_deb (py_strip l)"
  shows "py_split (py_strip l) \<noteq> [] \<and> ends_with_deb (last (py_split (py_strip l)))"
proof -
  have ne: "py_strip l \<noteq> []" using assms by (rule ends_with_deb_not_empty)
  from last_py_split [OF ne py_strip_last [OF ne]] ends_with_deb_last_word [OF assms]
  show ?thesis by simp
qed

lemma strlen_unicode_ascii:
  "\<forall>c \<in> set s. (of_char c :: nat) < 128 \<Longrightarrow> strlen_unicode s = length s"
  by (induction s) (auto simp: strlen_unicode_def utf8_width_def)

lemma parse_manifest_entry:
  assumes "parse_manifest manifest = Inr t" and "(h, f) \<in> set (kernel_hashes_and_files t)"
  shows "\<exists>l \<in> set (stream_lines manifest). re_search_deb (py_strip l)
            \<and> py_getitem (py_split (py_strip l)) 0 = Inr h
            \<and> py_getitem (py_split (py_strip l)) 1 = Inr f
            \<and> strlen_unicode h = 40
            \<and> 2 \<le> count_list f CHR ''_''"
proof -
  from assms(1) have "process_lines (stream_lines manifest)
      \<lparr>kernel_hashes_and_files = [], kernel_available_architectures = []\<rparr> = Inr t"
    by (simp add: parse_manifest_def build_tables_def)
  from process_lines_entry [OF this assms(2)] show ?thesis by simp
qed

lemma process_line_skips:
  assumes "py_split (py_strip l) = [] \<or> \<not> ends_with_deb (last (py_split (py_strip l)))
           \<or> strlen_unicode (hd (py_split (py_strip l))) \<noteq> 40"
  shows "process_line l t = Inr t"
proof (cases "re_search_deb (py_strip l)")
  case False
  then show ?thesis by (simp add: process_line_def)
next
  case True
  then have "ends_with_deb (py_strip l)" by (simp add: re_search_deb_stripped)
  from last_token_ends_with_deb [OF this] assms
  have ne: "py_split (py_strip l) \<noteq> []"
    and "strlen_unicode (hd (py_split (py_strip l))) \<noteq> 40" by auto
  then show ?thesis
    by (simp add: process_line_def Let_def py_getitem_def hd_conv_nth)
qed


text \<open>What every pass of the loop keeps to, the dict not being emptied between passes: an
  entry of the dict afterwards was in it before, or it is the first two tokens of a line whose
  last token ends with \<^verbatim>\<open>.deb\<close> in either case and whose first token counts 40 in
  \<^verbatim>\<open>strlen_unicode\<close>, which is its length when the token is ASCII. A line without tokens, or
  whose last token does not end so, or whose first token counts otherwise, leaves the tables as
  they were.\<close>

lemma build_tables_entries:
  "(build_tables manifest idx = Inr t \<and> (h, f) \<in> set (kernel_hashes_and_files t) \<longrightarrow>
      (h, f) \<in> set idx
      \<or> (\<exists>l \<in> set (stream_lines manifest).
            ends_with_deb (last (py_split (py_strip l)))
            \<and> py_getitem (py_split (py_strip l)) 0 = Inr h
            \<and> py_getitem (py_split (py_strip l)) 1 = Inr f
            \<and> strlen_unicode h = 40
            \<and> ((\<forall>c \<in> set h. (of_char c :: nat) < 128) \<longrightarrow> length h = 40)))
   \<and> (py_split (py_strip l') = [] \<or> \<not> ends_with_deb (last (py_split (py_strip l')))
        \<or> strlen_unicode (hd (py_split (py_strip l'))) \<noteq> 40
      \<longrightarrow> process_line l' t' = Inr t')"
proof (intro conjI impI)
  assume a: "build_tables manifest idx = Inr t \<and> (h, f) \<in> set (kernel_hashes_and_files t)"
  then have run: "process_lines (stream_lines manifest)
      \<lparr>kernel_hashes_and_files = idx, kernel_available_architectures = []\<rparr> = Inr t"
    and mem: "(h, f) \<in> set (kernel_hashes_and_files t)"
    by (simp_all add: build_tables_def)
  show "(h, f) \<in> set idx
      \<or> (\<exists>l \<in> set (stream_lines manifest).
            ends_with_deb (last (py_split (py_strip l)))
            \<and> py_getitem (py_split (py_strip l)) 0 = Inr h
            \<and> py_getitem (py_split (py_strip l)) 1 = Inr f
            \<and> strlen_unicode h = 40
            \<and> ((\<forall>c \<in> set h. (of_char c :: nat) < 128) \<longrightarrow> length h = 40))"
  proof (cases "(h, f) \<in> set idx")
    case True
    then show ?thesis by simp
  next
    case False
    with process_lines_entry [OF run mem]
    obtain l where l: "l \<in> set (stream_lines manifest)" "re_search_deb (py_strip l)"
      "py_getitem (py_split (py_strip l)) 0 = Inr h"
      "py_getitem (py_split (py_strip l)) 1 = Inr f" "strlen_unicode h = 40"
      by auto
    from l(2) have "ends_with_deb (last (py_split (py_strip l)))"
      using last_token_ends_with_deb [of l] by (simp add: re_search_deb_stripped)
    moreover have "(\<forall>c \<in> set h. (of_char c :: nat) < 128) \<longrightarrow> length h = 40"
      using l(5) strlen_unicode_ascii [of h] by auto
    ultimately show ?thesis using l by blast
  qed
next
  assume "py_split (py_strip l') = [] \<or> \<not> ends_with_deb (last (py_split (py_strip l')))
        \<or> strlen_unicode (hd (py_split (py_strip l'))) \<noteq> 40"
  then show "process_line l' t' = Inr t'" by (rule process_line_skips)
qed

text \<open>
  C4. The claim is that every entry kept comes from a line whose first token is exactly 40
  characters long, and the comment on line 828 asks for the same: only the hash of 40
  characters is wanted. Line 829 measures the UTF-8 encoding of the token instead. A first
  token of twenty letters of two bytes each counts 40 there, passes the test, and the entry is
  kept under a key of 20 characters.
\<close>

theorem accented_digest_is_kept:
  "parse_manifest accented_manifest
     = Inr \<lparr>kernel_hashes_and_files = [(replicate 20 (CHR 0xE9), ''linux-image_4.9.6_amd64.deb'')],
            kernel_available_architectures = [''amd64'']\<rparr>
   \<and> length (replicate 20 (CHR 0xE9)) = 20
   \<and> strlen_unicode (replicate 20 (CHR 0xE9)) = 40"
  by code_simp

subsection \<open>Flavors\<close>

lemma find_loop_too_few:
  "count + count_list cs ch < nthpos \<Longrightarrow> find_loop cs ch nthpos index count = 0"
  by (induction cs arbitrary: index count) auto

lemma count_list_drop1: "count_list s c \<le> count_list (drop 1 s) c + 1"
  by (cases s) auto

lemma count_list_pos_mem: "0 < count_list s c \<Longrightarrow> c \<in> set s"
  by (induction s) (auto split: if_splits)

lemma startpos_without_fourth_dash:
  "count_list f CHR ''-'' < 4 \<Longrightarrow> startpos_kernel_flavor f = 1"
  by (simp add: startpos_kernel_flavor_def find_position_of_nth_string_occurence_def
      find_loop_too_few)

lemma extract_flavor_without_fourth_dash:
  assumes "count_list f CHR ''-'' < 4" and "2 \<le> count_list f CHR ''_''"
  shows "extract_flavor f = Inr (takeWhile (\<lambda>c. c \<noteq> CHR ''_'') (drop 1 f))"
proof -
  have "0 < count_list (drop 1 f) CHR ''_''"
    using assms(2) count_list_drop1 [of f "CHR ''_''"] by linarith
  then have "CHR ''_'' \<in> set (drop 1 f)" by (rule count_list_pos_mem)
  then show ?thesis
    using assms(1)
    by (simp add: extract_flavor_def startpos_without_fourth_dash get_string_index_def
        takeWhile_eq_take [symmetric])
qed

text \<open>
  C6, as the code has it. For a file name the parser kept and that has no fourth dash, the
  finder returns its fallback 0, line 889 adds one, so the flavor is cut from index 1 up to the
  next underscore, and the cut does not raise: the name has two underscores, one of them after
  index 0.
\<close>

theorem flavor_start_without_fourth_dash:
  assumes "parse_manifest manifest = Inr t"
    and "(h, f) \<in> set (kernel_hashes_and_files t)"
    and "count_list f CHR ''-'' < 4"
  shows "find_position_of_nth_string_occurence f CHR ''-'' 4 = 0
         \<and> startpos_kernel_flavor f = 1
         \<and> extract_flavor f = Inr (takeWhile (\<lambda>c. c \<noteq> CHR ''_'') (drop 1 f))"
proof -
  from parse_manifest_entry [OF assms(1,2)] have u: "2 \<le> count_list f CHR ''_''" by blast
  have "startpos_kernel_flavor f = 1" using assms(3) by (rule startpos_without_fourth_dash)
  moreover from this have "find_position_of_nth_string_occurence f CHR ''-'' 4 = 0"
    by (simp add: startpos_kernel_flavor_def)
  moreover have "extract_flavor f = Inr (takeWhile (\<lambda>c. c \<noteq> CHR ''_'') (drop 1 f))"
    using assms(3) u by (rule extract_flavor_without_fourth_dash)
  ultimately show ?thesis by simp
qed

text \<open>The theorem at a manifest with the file name \<^verbatim>\<open>ab_c_amd64.deb\<close>.\<close>

theorem flavor_start_without_fourth_dash_witness:
  "parse_manifest dashless_manifest
     = Inr \<lparr>kernel_hashes_and_files =
              [(''0123456789abcdef0123456789abcdef01234567'', ''ab_c_amd64.deb'')],
            kernel_available_architectures = [''amd64'']\<rparr>
   \<and> count_list ''ab_c_amd64.deb'' CHR ''-'' < 4
   \<and> startpos_kernel_flavor ''ab_c_amd64.deb'' = 1
   \<and> extract_flavor ''ab_c_amd64.deb'' = Inr (takeWhile (\<lambda>c. c \<noteq> CHR ''_'') ''b_c_amd64.deb'')"
proof -
  let ?t = "\<lparr>kernel_hashes_and_files =
              [(''0123456789abcdef0123456789abcdef01234567'', ''ab_c_amd64.deb'')],
            kernel_available_architectures = [''amd64'']\<rparr>"
  have p: "parse_manifest dashless_manifest = Inr ?t" by code_simp
  have m: "(''0123456789abcdef0123456789abcdef01234567'', ''ab_c_amd64.deb'')
             \<in> set (kernel_hashes_and_files ?t)" by simp
  have c: "count_list ''ab_c_amd64.deb'' CHR ''-'' < 4" by simp
  from flavor_start_without_fourth_dash [OF p m c] p c show ?thesis by simp
qed

text \<open>
  C6 as it is written has the flavor begin at index 0. On \<^verbatim>\<open>ab_c_amd64.deb\<close> the start is
  not 0 and the flavor is \<^verbatim>\<open>b\<close>, not the \<^verbatim>\<open>ab\<close> that a cut from index 0 gives.
\<close>

theorem flavor_start_is_one_counterexample:
  "count_list ''ab_c_amd64.deb'' CHR ''-'' < 4
   \<and> startpos_kernel_flavor ''ab_c_amd64.deb'' \<noteq> 0
   \<and> extract_flavor ''ab_c_amd64.deb'' = Inr ''b''
   \<and> take 2 ''ab_c_amd64.deb'' = ''ab''"
  by code_simp

text \<open>
  C8. The claim is that the flavors derived for one architecture come only from file names of
  that architecture. Line 887 asks whether the architecture occurs anywhere in the file name:
  with the architectures \<^verbatim>\<open>arm\<close> and \<^verbatim>\<open>arm64\<close> the flavor \<^verbatim>\<open>lpae\<close>, which only an
  \<^verbatim>\<open>arm64\<close> package has, is listed for \<^verbatim>\<open>arm\<close>. The download loop tests the end of the
  name and does not select that package for \<^verbatim>\<open>arm\<close>.
\<close>

theorem flavors_leak_across_architectures:
  "parse_manifest two_arch_manifest
     = Inr \<lparr>kernel_hashes_and_files = two_arch_index,
            kernel_available_architectures = [''arm'', ''arm64'']\<rparr>
   \<and> kernel_available_flavors ''arm'' two_arch_index = Inr [''generic'', ''lpae'']
   \<and> kernel_available_flavors ''arm64'' two_arch_index = Inr [''lpae'']
   \<and> \<not> selected_for_download ''arm'' ''lpae'' ''linux-image-4.9.6-040906-lpae_4.9.6_arm64.deb''"
  by code_simp

subsection \<open>Downloading\<close>

text \<open>When every selected file is on disk after its download and the digest tool prints a
  digest for it, the loop runs to its end and the list takes the destinations of exactly the
  downloads that succeeded, in the order of the dict.\<close>

lemma fetch_file_when_file_remains:
  "size_on_disk tr \<noteq> None \<Longrightarrow> sha1_output tr \<noteq> None \<Longrightarrow>
     fetch_file tr h dest downloaded
       = Inr (if download_ok tr then downloaded @ [dest] else downloaded)"
  by (auto simp: fetch_file_def get_file_size_def validate_checksum_def)

lemma fetch_loop_when_files_remain:
  assumes "\<And>h f. (h, f) \<in> set items \<Longrightarrow> selected_for_download arch flavor f \<Longrightarrow>
             size_on_disk (world f) \<noteq> None \<and> sha1_output (world f) \<noteq> None"
  shows "fetch_loop world loc arch flavor items downloaded
           = Inr (downloaded @ map (destination_full_path loc)
                    (filter (\<lambda>f. selected_for_download arch flavor f \<and> download_ok (world f))
                       (map snd items)))"
  using assms
proof (induction items arbitrary: downloaded)
  case Nil
  then show ?case by simp
next
  case (Cons item items)
  obtain h f where item: "item = (h, f)" by (cases item)
  have rest: "\<And>h f. (h, f) \<in> set items \<Longrightarrow> selected_for_download arch flavor f \<Longrightarrow>
             size_on_disk (world f) \<noteq> None \<and> sha1_output (world f) \<noteq> None"
    using Cons.prems by auto
  note IH = Cons.IH [OF rest]
  show ?case
  proof (cases "selected_for_download arch flavor f")
    case True
    then have "size_on_disk (world f) \<noteq> None" "sha1_output (world f) \<noteq> None"
      using Cons.prems [of h f] item by auto
    then show ?thesis using True item IH by (simp add: fetch_file_when_file_remains)
  next
    case False
    then show ?thesis using item IH by simp
  qed
qed


text \<open>
  C2. The claim is that a failed download is skipped and the loop goes on. When the failed
  download leaves no file at the destination, the size and the digest are still asked for, the
  digest tool prints nothing, and the loop raises AttributeError before it reaches the next
  file; the session then ends through the handlers of main.
\<close>

theorem failed_download_aborts_batch:
  "download_files failing_world ''/dl'' ''arm'' ''generic'' two_file_index = Inl AttributeError
   \<and> exit_status (main_try (raise_error AttributeError)) = 0"
  by code_simp

subsection \<open>The end-to-end scenario\<close>

text \<open>A line of a release read back: the stream gives the line, stripping takes the LF away,
  splitting gives the digest and the file name.\<close>

lemma is_wordD: "is_word w \<Longrightarrow> w \<noteq> [] \<and> (\<forall>c \<in> set w. \<not> py_isspace c)"
  by (simp add: is_word_def list_all_iff)

lemma stream_lines_line:
  "CHR 0x0A \<notin> set l \<Longrightarrow> stream_lines (l @ CHR 0x0A # rest) = (l @ [CHR 0x0A]) # stream_lines rest"
  by (induction l) auto

lemma stream_lines_manifest_line:
  assumes "is_word d" and "is_word f"
  shows "stream_lines (manifest_line d f @ rest) = manifest_line d f # stream_lines rest"
proof -
  have lf: "py_isspace (CHR 0x0A)" by (simp add: py_isspace_def)
  have "CHR 0x0A \<notin> set (d @ ''  '' @ f)"
    using is_wordD [OF assms(1)] is_wordD [OF assms(2)] lf by auto
  from stream_lines_line [OF this, of rest] show ?thesis by (simp add: manifest_line_def)
qed

lemma py_strip_manifest_line:
  assumes "is_word d" and "is_word f"
  shows "py_strip (manifest_line d f) = d @ ''  '' @ f"
proof -
  from is_wordD [OF assms(1)] obtain c cs where d: "d = c # cs" "\<not> py_isspace c"
    by (cases d) auto
  from is_wordD [OF assms(2)] obtain e es where f: "rev f = e # es" "\<not> py_isspace e"
    by (cases "rev f") (auto dest: arg_cong [where f = set])
  have lf: "py_isspace (CHR 0x0A)" by (simp add: py_isspace_def)
  have "dropWhile py_isspace (manifest_line d f) = manifest_line d f"
    using d by (simp add: manifest_line_def)
  moreover have "dropWhile py_isspace (rev (manifest_line d f)) = rev (d @ ''  '' @ f)"
    using f lf by (simp add: manifest_line_def)
  ultimately show ?thesis by (simp add: py_strip_def)
qed

lemma py_split_trailing:
  assumes "w \<noteq> []" and "\<forall>c \<in> set w. \<not> py_isspace c" and "\<forall>c \<in> set sp. py_isspace c"
  shows "py_split (w @ sp) = [w]"
proof -
  have blank: "py_split sp = []" using assms(3) by (induction sp) auto
  show ?thesis using assms(1,2)
  proof (induction w)
    case Nil
    then show ?case by simp
  next
    case (Cons c w)
    show ?case
    proof (cases w)
      case Nil
      then show ?thesis using Cons.prems blank assms(3) by (cases sp) auto
    next
      case (Cons d w')
      then show ?thesis using Cons.IH Cons.prems by auto
    qed
  qed
qed

lemma py_split_manifest_line:
  assumes "is_word d" and "is_word f"
  shows "py_split (d @ ''  '' @ f) = [d, f]"
proof -
  have sp: "py_isspace CHR '' ''" by (simp add: py_isspace_def)
  have one: "py_split (d @ ''  '') = [d]"
    using is_wordD [OF assms(1)] sp by (intro py_split_trailing) auto
  have "py_split ((d @ ''  '') @ f) = py_split (d @ ''  '') @ [f]"
    using is_wordD [OF assms(2)] sp by (intro py_split_snoc_word) auto
  then show ?thesis using one by simp
qed

lemma ends_with_deb_append: "ends_with_deb f \<Longrightarrow> ends_with_deb (u @ f)"
  by (auto simp: ends_with_deb_def split: list.splits)

lemma process_line_manifest_line:
  assumes "is_word d" and "is_word f" and "ends_with_deb f"
    and "py_getitem (py_split_on CHR ''_'' f) 2 = Inr seg"
    and "py_getitem (py_split_on CHR ''.'' seg) 0 = Inr arch"
  shows "process_line (manifest_line d f) t =
     Inr (if strlen_unicode d = 40
          then (if arch \<notin> set (kernel_available_architectures t) \<and> arch \<noteq> ''all''
                then \<lparr>kernel_hashes_and_files = dict_set (kernel_hashes_and_files t) d f,
                      kernel_available_architectures = kernel_available_architectures t @ [arch]\<rparr>
                else \<lparr>kernel_hashes_and_files = dict_set (kernel_hashes_and_files t) d f,
                      kernel_available_architectures = kernel_available_architectures t\<rparr>)
          else t)"
proof -
  define line where "line = d @ ''  '' @ f"
  have strip: "py_strip (manifest_line d f) = line"
    unfolding line_def by (rule py_strip_manifest_line [OF assms(1,2)])
  have split: "py_split line = [d, f]"
    unfolding line_def by (rule py_split_manifest_line [OF assms(1,2)])
  have "ends_with_deb line"
    unfolding line_def using ends_with_deb_append [OF assms(3), of "d @ ''  ''"] by simp
  then have re: "re_search_deb line" by (simp add: re_search_deb_def)
  have tok: "py_getitem [d, f] 0 = Inr d" "py_getitem [d, f] (Suc 0) = Inr f"
    by (simp_all add: py_getitem_def)
  show ?thesis
    by (simp add: process_line_def strip split re tok assms(4,5) Let_def)
qed

text \<open>The flavors do not depend on the digests.\<close>

lemma collect_flavors_names:
  "map snd items = map snd items' \<Longrightarrow>
     collect_flavors arch items flavors = collect_flavors arch items' flavors"
proof (induction items arbitrary: items' flavors)
  case Nil
  then show ?case by simp
next
  case (Cons item items)
  then obtain item' rest where i: "items' = item' # rest" "snd item = snd item'"
    "map snd items = map snd rest" by (cases items') auto
  obtain h f h' where "item = (h, f)" "item' = (h', f)" using i(2) by (cases item, cases item') auto
  then show ?case using i Cons.IH [OF i(3)] by (simp split: sum.splits)
qed

lemma scenario_tables:
  assumes w: "is_word d1" "is_word d2" "is_word d3" "is_word d4"
    and n: "strlen_unicode d1 = 40" "strlen_unicode d2 = 40" "strlen_unicode d3 = 40"
      "strlen_unicode d4 = 39"
    and d: "distinct [d1, d2, d3]"
  shows "parse_manifest (scenario_release d1 d2 d3 d4)
           = Inr \<lparr>kernel_hashes_and_files = scenario_index d1 d2 d3,
                  kernel_available_architectures = [''amd64'']\<rparr>"
proof -
  let ?f1 = "''linux-headers-4.9.6-040906_4.9.6_all.deb''"
  let ?f2 = "''linux-headers-4.9.6-040906-generic_4.9.6_amd64.deb''"
  let ?f3 = "''linux-image-4.9.6-040906-generic_4.9.6_amd64.deb''"
  let ?f4 = "''linux-image-4.9.6-040906-lowlatency_4.9.6_amd64.deb''"
  let ?t0 = "\<lparr>kernel_hashes_and_files = [], kernel_available_architectures = []\<rparr>"
  have fw: "is_word ?f1" "is_word ?f2" "is_word ?f3" "is_word ?f4" by code_simp+
  have fd: "ends_with_deb ?f1" "ends_with_deb ?f2" "ends_with_deb ?f3" "ends_with_deb ?f4"
    by code_simp+
  have seg: "py_getitem (py_split_on CHR ''_'' ?f1) 2 = Inr ''all.deb''"
    "py_getitem (py_split_on CHR ''_'' ?f2) 2 = Inr ''amd64.deb''"
    "py_getitem (py_split_on CHR ''_'' ?f3) 2 = Inr ''amd64.deb''"
    "py_getitem (py_split_on CHR ''_'' ?f4) 2 = Inr ''amd64.deb''"
    by code_simp+
  have arch: "py_getitem (py_split_on CHR ''.'' ''all.deb'') 0 = Inr ''all''"
    "py_getitem (py_split_on CHR ''.'' ''amd64.deb'') 0 = Inr ''amd64''"
    by code_simp+
  have lines: "stream_lines (scenario_release d1 d2 d3 d4)
      = [manifest_line d1 ?f1, manifest_line d2 ?f2, manifest_line d3 ?f3, manifest_line d4 ?f4]"
    unfolding scenario_release_def
    using stream_lines_manifest_line [OF w(4) fw(4), of "[]"]
    by (simp add: stream_lines_manifest_line w fw)
  have l1: "process_line (manifest_line d1 ?f1) ?t0
      = Inr \<lparr>kernel_hashes_and_files = [(d1, ?f1)], kernel_available_architectures = []\<rparr>"
    by (simp add: process_line_manifest_line [OF w(1) fw(1) fd(1) seg(1) arch(1)] n)
  have l2: "process_line (manifest_line d2 ?f2)
        \<lparr>kernel_hashes_and_files = [(d1, ?f1)], kernel_available_architectures = []\<rparr>
      = Inr \<lparr>kernel_hashes_and_files = [(d1, ?f1), (d2, ?f2)],
             kernel_available_architectures = [''amd64'']\<rparr>"
    using d by (simp add: process_line_manifest_line [OF w(2) fw(2) fd(2) seg(2) arch(2)] n)
  have l3: "process_line (manifest_line d3 ?f3)
        \<lparr>kernel_hashes_and_files = [(d1, ?f1), (d2, ?f2)],
             kernel_available_architectures = [''amd64'']\<rparr>
      = Inr \<lparr>kernel_hashes_and_files = [(d1, ?f1), (d2, ?f2), (d3, ?f3)],
             kernel_available_architectures = [''amd64'']\<rparr>"
    using d by (simp add: process_line_manifest_line [OF w(3) fw(3) fd(3) seg(3) arch(2)] n)
  have l4: "process_line (manifest_line d4 ?f4) t = Inr t" for t
    by (simp add: process_line_manifest_line [OF w(4) fw(4) fd(4) seg(4) arch(2)] n)
  show ?thesis
    by (simp add: parse_manifest_def build_tables_def lines l1 l2 l3 l4 scenario_index_def
        scenario_packages_def)
qed

text \<open>
  C7. On the release of the scenario, whatever the digests are as long as they are tokens, the
  first three are of length 40 and distinct and the fourth is of length 39: the dict has exactly
  the three entries, the architectures are exactly \<^verbatim>\<open>amd64\<close>, the flavors for \<^verbatim>\<open>amd64\<close> are
  exactly \<^verbatim>\<open>generic\<close>, the download loop selects exactly the three packages, and with every
  download succeeding the list of downloaded files is the manifest file followed by the three
  packages.
\<close>

theorem end_to_end_scenario:
  assumes w: "is_word d1" "is_word d2" "is_word d3" "is_word d4"
    and n: "strlen_unicode d1 = 40" "strlen_unicode d2 = 40" "strlen_unicode d3 = 40"
      "strlen_unicode d4 = 39"
    and d: "distinct [d1, d2, d3]"
  shows "parse_manifest (scenario_release d1 d2 d3 d4)
           = Inr \<lparr>kernel_hashes_and_files = scenario_index d1 d2 d3,
                  kernel_available_architectures = [''amd64'']\<rparr>
         \<and> length (scenario_index d1 d2 d3) = 3
         \<and> kernel_available_flavors ''amd64'' (scenario_index d1 d2 d3) = Inr [''generic'']
         \<and> filter (selected_for_download ''amd64'' ''generic'')
               (map snd (scenario_index d1 d2 d3)) = scenario_packages
         \<and> download_files obliging_world loc ''amd64'' ''generic''
               (scenario_index d1 d2 d3)
             = Inr (map (destination_full_path loc) (CHECKSUMS_FILE # scenario_packages))"
proof -
  let ?idx = "scenario_index d1 d2 d3"
  have names: "map snd ?idx = scenario_packages"
    by (simp add: scenario_index_def scenario_packages_def)
  have names0: "map snd (scenario_index [] [] []) = scenario_packages"
    by (simp add: scenario_index_def scenario_packages_def)
  have c2: "length ?idx = 3" by (simp add: scenario_index_def scenario_packages_def)
  have "kernel_available_flavors ''amd64'' (scenario_index [] [] []) = Inr [''generic'']"
    by code_simp
  then have c3: "kernel_available_flavors ''amd64'' ?idx = Inr [''generic'']"
    unfolding kernel_available_flavors_def
    using collect_flavors_names [of ?idx "scenario_index [] [] []" "''amd64''" "[]"]
      names names0 by simp
  have sel: "filter (selected_for_download ''amd64'' ''generic'') scenario_packages
      = scenario_packages" by code_simp
  have c4: "filter (selected_for_download ''amd64'' ''generic'') (map snd ?idx)
      = scenario_packages" unfolding names by (rule sel)
  have ok: "filter (\<lambda>f. selected_for_download ''amd64'' ''generic'' f
                         \<and> download_ok (obliging_world f)) scenario_packages
      = filter (selected_for_download ''amd64'' ''generic'') scenario_packages"
    by (simp add: obliging_world_def)
  have "fetch_loop obliging_world loc ''amd64'' ''generic'' ?idx
          [destination_full_path loc CHECKSUMS_FILE]
      = Inr ([destination_full_path loc CHECKSUMS_FILE] @ map (destination_full_path loc)
               (filter (\<lambda>f. selected_for_download ''amd64'' ''generic'' f
                         \<and> download_ok (obliging_world f)) (map snd ?idx)))"
    by (rule fetch_loop_when_files_remain) (simp add: obliging_world_def)
  then have c5: "download_files obliging_world loc ''amd64'' ''generic'' ?idx
      = Inr (map (destination_full_path loc) (CHECKSUMS_FILE # scenario_packages))"
    unfolding names ok sel
    by (simp add: download_files_def obliging_world_def get_file_size_def)
  from scenario_tables [OF w n d] c2 c3 c4 c5 show ?thesis by simp
qed

text \<open>The theorem at four hexadecimal digests.\<close>

theorem end_to_end_scenario_witness:
  "is_word ''0123456789abcdef0123456789abcdef01234567''
   \<and> strlen_unicode ''3123456789abcdef0123456789abcdef0123456'' = 39
   \<and> parse_manifest (scenario_release ''0123456789abcdef0123456789abcdef01234567''
          ''1123456789abcdef0123456789abcdef01234567''
          ''2123456789abcdef0123456789abcdef01234567''
          ''3123456789abcdef0123456789abcdef0123456'')
       = Inr \<lparr>kernel_hashes_and_files =
                scenario_index ''0123456789abcdef0123456789abcdef01234567''
                  ''1123456789abcdef0123456789abcdef01234567''
                  ''2123456789abcdef0123456789abcdef01234567'',
              kernel_available_architectures = [''amd64'']\<rparr>
   \<and> kernel_available_flavors ''amd64''
         (scenario_index ''0123456789abcdef0123456789abcdef01234567''
            ''1123456789abcdef0123456789abcdef01234567''
            ''2123456789abcdef0123456789abcdef01234567'') = Inr [''generic'']
   \<and> download_files obliging_world ''/dl'' ''amd64'' ''generic''
         (scenario_index ''0123456789abcdef0123456789abcdef01234567''
            ''1123456789abcdef0123456789abcdef01234567''
            ''2123456789abcdef0123456789abcdef01234567'')
       = Inr [''/dl/CHECKSUMS'',
              ''/dl/linux-headers-4.9.6-040906_4.9.6_all.deb'',
              ''/dl/linux-headers-4.9.6-040906-generic_4.9.6_amd64.deb'',
              ''/dl/linux-image-4.9.6-040906-generic_4.9.6_amd64.deb'']"
proof -
  let ?d1 = "''0123456789abcdef0123456789abcdef01234567''"
  let ?d2 = "''1123456789abcdef0123456789abcdef01234567''"
  let ?d3 = "''2123456789abcdef0123456789abcdef01234567''"
  let ?d4 = "''3123456789abcdef0123456789abcdef0123456''"
  have w: "is_word ?d1" "is_word ?d2" "is_word ?d3" "is_word ?d4" by code_simp+
  have n: "strlen_unicode ?d1 = 40" "strlen_unicode ?d2 = 40" "strlen_unicode ?d3 = 40"
    "strlen_unicode ?d4 = 39" by code_simp+
  have d: "distinct [?d1, ?d2, ?d3]" by simp
  have paths: "map (destination_full_path ''/dl'') (CHECKSUMS_FILE # scenario_packages)
      = [''/dl/CHECKSUMS'',
         ''/dl/linux-headers-4.9.6-040906_4.9.6_all.deb'',
         ''/dl/linux-headers-4.9.6-040906-generic_4.9.6_amd64.deb'',
         ''/dl/linux-image-4.9.6-040906-generic_4.9.6_amd64.deb'']" by code_simp
  from end_to_end_scenario [OF w n d, of "''/dl''"] w(1) n(4) show ?thesis
    unfolding paths by simp
qed

subsection \<open>Installing\<close>

text \<open>Quoting changes a path unless the path is made of safe characters, and it never maps two
  paths to one argument: the escaped text determines the text, and an argument that was wrapped
  begins and ends with a single quote, which is not a safe character.\<close>

lemma quote_safe: "s \<noteq> [] \<Longrightarrow> list_all shell_safe s \<Longrightarrow> quote s = s"
  by (simp add: quote_def)

lemma single_quote_unsafe: "\<not> shell_safe (CHR 0x27)"
  by (simp add: shell_safe_def)

lemma escape_single_quotes_empty: "escape_single_quotes [] = []"
  by (simp add: escape_single_quotes_def)

lemma escape_single_quotes_Cons:
  "escape_single_quotes (c # s) =
     (if c = CHR 0x27 then [CHR 0x27, CHR 0x22, CHR 0x27, CHR 0x22, CHR 0x27] else [c])
       @ escape_single_quotes s"
  by (simp add: escape_single_quotes_def)

lemma escape_single_quotes_Nil: "escape_single_quotes s = [] \<longleftrightarrow> s = []"
  by (cases s) (simp_all add: escape_single_quotes_empty escape_single_quotes_Cons)

lemma escape_single_quotes_inj:
  "escape_single_quotes s = escape_single_quotes t \<Longrightarrow> s = t"
proof (induction s arbitrary: t)
  case Nil
  then have "escape_single_quotes t = []" by (simp add: escape_single_quotes_empty)
  then show ?case by (simp add: escape_single_quotes_Nil)
next
  case (Cons c s)
  have "t \<noteq> []"
  proof
    assume "t = []"
    then have "escape_single_quotes (c # s) = []"
      using Cons.prems by (simp add: escape_single_quotes_empty)
    then show False by (simp add: escape_single_quotes_Nil)
  qed
  then obtain d t' where t: "t = d # t'" by (cases t) auto
  from Cons.prems have "c = d \<and> escape_single_quotes s = escape_single_quotes t'"
    unfolding t by (auto simp: escape_single_quotes_Cons split: if_splits)
  then show ?case using Cons.IH [of t'] t by simp
qed

lemma quote_cases:
  "quote s = s \<and> s \<noteq> [] \<and> list_all shell_safe s
   \<or> quote s = CHR 0x27 # escape_single_quotes s @ [CHR 0x27] \<and> \<not> (s \<noteq> [] \<and> list_all shell_safe s)"
  by (auto simp: quote_def escape_single_quotes_def)

lemma quote_inj: "quote s = quote t \<Longrightarrow> s = t"
proof -
  assume eq: "quote s = quote t"
  consider (plain) "quote s = s" "s \<noteq> []" "list_all shell_safe s"
    | (wrapped) "quote s = CHR 0x27 # escape_single_quotes s @ [CHR 0x27]"
    using quote_cases [of s] by blast
  then show ?thesis
  proof cases
    case plain
    consider (plain') "quote t = t"
      | (wrapped') "quote t = CHR 0x27 # escape_single_quotes t @ [CHR 0x27]"
      using quote_cases [of t] by blast
    then show ?thesis
    proof cases
      case plain'
      then show ?thesis using eq plain by simp
    next
      case wrapped'
      then have "s = CHR 0x27 # escape_single_quotes t @ [CHR 0x27]" using eq plain(1) by simp
      then have "hd s = CHR 0x27" by (metis list.sel(1))
      then have "\<not> shell_safe (hd s)" by (simp add: single_quote_unsafe)
      then show ?thesis using plain(2,3) by (cases s) auto
    qed
  next
    case wrapped
    consider (plain') "quote t = t" "t \<noteq> []" "list_all shell_safe t"
      | (wrapped') "quote t = CHR 0x27 # escape_single_quotes t @ [CHR 0x27]"
      using quote_cases [of t] by blast
    then show ?thesis
    proof cases
      case plain'
      then have "t = CHR 0x27 # escape_single_quotes s @ [CHR 0x27]" using eq wrapped by simp
      then have "hd t = CHR 0x27" by (metis list.sel(1))
      then have "\<not> shell_safe (hd t)" by (simp add: single_quote_unsafe)
      then show ?thesis using plain'(2,3) by (cases t) auto
    next
      case wrapped'
      then have "escape_single_quotes s = escape_single_quotes t" using eq wrapped by simp
      then show ?thesis by (rule escape_single_quotes_inj)
    qed
  qed
qed

lemma quote_changed_ends_in_quote: "quote s \<noteq> s \<Longrightarrow> last (quote s) = CHR 0x27"
  using quote_cases [of s] by auto

text \<open>The arguments handed to the package tool are the quoted forms of the first so many files
  of the sorted list without the manifest file; with the lock free at every probe, of all of
  them.\<close>

lemma install_loop_calls:
  "install_loop dpkg ps files st = (st', e) \<Longrightarrow>
     \<exists>xs. dpkg_calls st' = dpkg_calls st @ map quote xs
          \<and> prefix xs (filter (\<lambda>p. basename p \<noteq> CHECKSUMS_FILE) files)"
proof (induction files arbitrary: ps st)
  case Nil
  then show ?case by simp
next
  case (Cons deb_file_name rest)
  obtain w ps' where w: "wait_for_lock ps = (w, ps')" by (cases "wait_for_lock ps")
  show ?case
  proof (cases w)
    case (Go skip)
    show ?thesis
    proof (cases skip)
      case True
      then have "dpkg_calls st' = dpkg_calls st @ map quote []" using Cons.prems w Go by auto
      then show ?thesis by (metis prefix_bot.extremum)
    next
      case False
      show ?thesis
      proof (cases "basename deb_file_name \<noteq> CHECKSUMS_FILE")
        case True
        let ?st1 = "st\<lparr>dpkg_calls := dpkg_calls st @ [quote deb_file_name]\<rparr>"
        let ?st2 = "if dpkg (quote deb_file_name) \<noteq> 0
                    then ?st1\<lparr>last_error_code := dpkg (quote deb_file_name),
                               error_occurred := error_occurred ?st1 + 1\<rparr>
                    else ?st1"
        have "install_loop dpkg ps' rest ?st2 = (st', e)"
          using Cons.prems w Go False True by (simp add: Let_def)
        from Cons.IH [OF this] obtain xs where
          "dpkg_calls st' = dpkg_calls ?st2 @ map quote xs"
          "prefix xs (filter (\<lambda>p. basename p \<noteq> CHECKSUMS_FILE) rest)" by blast
        then have "dpkg_calls st' = dpkg_calls st @ map quote (deb_file_name # xs)"
          "prefix (deb_file_name # xs)
             (filter (\<lambda>p. basename p \<noteq> CHECKSUMS_FILE) (deb_file_name # rest))"
          using True by (auto split: if_splits)
        then show ?thesis by blast
      next
        case same: False
        then have "install_loop dpkg ps' rest st = (st', e)"
          using Cons.prems w Go False by (simp add: Let_def)
        from Cons.IH [OF this] show ?thesis using same by auto
      qed
    qed
  next
    case (Stop x)
    then have "dpkg_calls st' = dpkg_calls st @ map quote []" using Cons.prems w by auto
    then show ?thesis by (metis prefix_bot.extremum)
  next
    case Starved
    then have "dpkg_calls st' = dpkg_calls st @ map quote []" using Cons.prems w by auto
    then show ?thesis by (metis prefix_bot.extremum)
  qed
qed

lemma install_loop_unlocked:
  "length files \<le> n \<Longrightarrow> install_loop dpkg (replicate n Unlocked) files st = (st', e) \<Longrightarrow>
     e = Completed
     \<and> dpkg_calls st'
         = dpkg_calls st @ map quote (filter (\<lambda>p. basename p \<noteq> CHECKSUMS_FILE) files)"
proof (induction files arbitrary: n st)
  case Nil
  then show ?case by simp
next
  case (Cons deb_file_name rest)
  then obtain m where n: "n = Suc m" and m: "length rest \<le> m" by (cases n) auto
  show ?case
  proof (cases "basename deb_file_name \<noteq> CHECKSUMS_FILE")
    case True
    let ?st1 = "st\<lparr>dpkg_calls := dpkg_calls st @ [quote deb_file_name]\<rparr>"
    let ?st2 = "if dpkg (quote deb_file_name) \<noteq> 0
                then ?st1\<lparr>last_error_code := dpkg (quote deb_file_name),
                           error_occurred := error_occurred ?st1 + 1\<rparr>
                else ?st1"
    have "install_loop dpkg (replicate m Unlocked) rest ?st2 = (st', e)"
      using Cons.prems(2) n True by (simp add: Let_def)
    from Cons.IH [OF m this] show ?thesis using True by (auto split: if_splits)
  next
    case False
    then have "install_loop dpkg (replicate m Unlocked) rest st = (st', e)"
      using Cons.prems(2) n by (simp add: Let_def)
    from Cons.IH [OF m this] show ?thesis using False by auto
  qed
qed

lemma basename_destination:
  "CHR ''/'' \<notin> set n \<Longrightarrow> basename (destination_full_path loc n) = n"
proof -
  assume "CHR ''/'' \<notin> set n"
  then have "takeWhile (\<lambda>c. c \<noteq> CHR ''/'') (rev n @ CHR ''/'' # rev loc) = rev n"
    by (subst takeWhile_append2) auto
  then show ?thesis by (simp add: basename_def destination_full_path_def)
qed

lemma basename_manifest: "basename (destination_full_path loc CHECKSUMS_FILE) = CHECKSUMS_FILE"
  by (rule basename_destination) (simp add: CHECKSUMS_FILE_def)

lemma length_destination:
  "length (destination_full_path loc n) = length loc + 1 + length n"
  by (simp add: destination_full_path_def)

lemma hd_sort_key_least:
  assumes "xs \<noteq> []"
  shows "hd (sort_key f xs) \<in> set xs \<and> (\<forall>y \<in> set xs. f (hd (sort_key f xs)) \<le> f y)"
proof -
  let ?ys = "sort_key f xs"
  have ne: "?ys \<noteq> []" using assms by (metis length_0_conv length_sort)
  then obtain z zs where z: "?ys = z # zs" by (cases ?ys) auto
  have "sorted (map f ?ys)" by (rule sorted_sort_key)
  then have "\<forall>y \<in> set zs. f z \<le> f y" using z by simp
  moreover have "set ?ys = set xs" by simp
  ultimately show ?thesis using z by auto
qed

text \<open>An argument handed to the package tool is neither the path of the manifest file nor the
  quoted form of that path, once the file it was made from is another one.\<close>

lemma quote_not_manifest:
  assumes "basename p \<noteq> CHECKSUMS_FILE"
  shows "quote p \<noteq> destination_full_path loc CHECKSUMS_FILE
         \<and> quote p \<noteq> quote (destination_full_path loc CHECKSUMS_FILE)"
proof -
  let ?m = "destination_full_path loc CHECKSUMS_FILE"
  have pm: "p \<noteq> ?m" using assms basename_manifest [of loc] by auto
  have "last ?m = CHR ''S''" by (simp add: destination_full_path_def CHECKSUMS_FILE_def)
  then have "last ?m \<noteq> CHR 0x27" by simp
  then have "quote p \<noteq> ?m" using quote_changed_ends_in_quote [of p] pm by metis
  moreover have "quote p \<noteq> quote ?m" using quote_inj [of p ?m] pm by blast
  ultimately show ?thesis by simp
qed

text \<open>A path of safe characters is handed to the package tool as it is; a directory with a blank
  in its name is not, the tool then gets the path between two single quotes.\<close>

lemma quote_destination_safe:
  assumes "list_all shell_safe loc" and "list_all shell_safe n"
  shows "quote (destination_full_path loc n) = destination_full_path loc n"
proof -
  have "shell_safe (CHR ''/'')" by (simp add: shell_safe_def)
  then have "list_all shell_safe (destination_full_path loc n)"
    using assms by (simp add: destination_full_path_def)
  moreover have "destination_full_path loc n \<noteq> []" by (simp add: destination_full_path_def)
  ultimately show ?thesis by (simp add: quote_safe)
qed


lemma quote_wraps_path_with_blank:
  "quote ''/my dl/linux-headers-4.9.6_4.9.6_all.deb''
     = CHR 0x27 # ''/my dl/linux-headers-4.9.6_4.9.6_all.deb'' @ [CHR 0x27]"
  by code_simp

text \<open>
  C9. The files of a batch lie in one directory, so sorting the paths by length sorts them by
  the length of the file name, and the list is sorted so before the installation loop starts.
  Wherever the loop ends, the arguments handed to the package tool are \<^verbatim>\<open>quote\<close> of the first
  so many packages of that sorted list, the manifest file left out: neither its path nor the
  quoted form of its path is ever handed over, and the first argument is made from a package
  whose name is no longer than that of any other package of the batch. With the lock free at
  every probe the loop completes and every package has its turn. When the directory and the
  file names are made of safe characters, the arguments are the paths themselves.
\<close>

theorem shortest_name_installed_first:
  assumes run: "install_files dpkg ps (map (destination_full_path loc) names) = (st, e)"
    and plain: "\<forall>n \<in> set names. CHR ''/'' \<notin> set n"
  shows "dpkg_calls st
           = map quote (take (length (dpkg_calls st))
               (sort_key length (map (destination_full_path loc)
                  (filter (\<lambda>n. n \<noteq> CHECKSUMS_FILE) names))))
         \<and> destination_full_path loc CHECKSUMS_FILE \<notin> set (dpkg_calls st)
         \<and> quote (destination_full_path loc CHECKSUMS_FILE) \<notin> set (dpkg_calls st)
         \<and> (dpkg_calls st \<noteq> [] \<longrightarrow>
              (\<exists>n \<in> set names. hd (dpkg_calls st) = quote (destination_full_path loc n)
                 \<and> n \<noteq> CHECKSUMS_FILE
                 \<and> (\<forall>m \<in> set names. m \<noteq> CHECKSUMS_FILE \<longrightarrow> length n \<le> length m)))
         \<and> (ps = replicate (length names) Unlocked \<longrightarrow>
              e = Completed
              \<and> dpkg_calls st
                  = map quote (sort_key length (map (destination_full_path loc)
                      (filter (\<lambda>n. n \<noteq> CHECKSUMS_FILE) names))))
         \<and> (list_all shell_safe loc \<and> list_all (list_all shell_safe) names \<longrightarrow>
              dpkg_calls st
                = take (length (dpkg_calls st))
                    (sort_key length (map (destination_full_path loc)
                       (filter (\<lambda>n. n \<noteq> CHECKSUMS_FILE) names))))"
proof -
  let ?P = "\<lambda>p. basename p \<noteq> CHECKSUMS_FILE"
  let ?files = "map (destination_full_path loc) names"
  let ?queue = "sort_key length (map (destination_full_path loc)
                  (filter (\<lambda>n. n \<noteq> CHECKSUMS_FILE) names))"
  let ?m = "destination_full_path loc CHECKSUMS_FILE"
  have pick: "filter ?P ?files
      = map (destination_full_path loc) (filter (\<lambda>n. n \<noteq> CHECKSUMS_FILE) names)"
    using plain by (induction names) (auto simp: basename_destination)
  have queue: "filter ?P (sort_key length ?files) = ?queue"
    by (simp add: filter_sort pick)
  from run have loop: "install_loop dpkg ps (sort_key length ?files)
      \<lparr>dpkg_calls = [], error_occurred = 0, last_error_code = 0, exit_installation = False\<rparr>
      = (st, e)"
    by (simp add: install_files_def)
  from install_loop_calls [OF loop] obtain served where
    calls: "dpkg_calls st = map quote served" and pre: "prefix served ?queue"
    unfolding queue by auto
  from pre obtain zs where zs: "?queue = served @ zs" by (auto simp: prefix_def)
  have served: "served = take (length (dpkg_calls st)) ?queue"
    unfolding zs calls by simp
  have c1: "dpkg_calls st = map quote (take (length (dpkg_calls st)) ?queue)"
    using calls served by simp
  have inq: "set served \<subseteq> set (filter ?P ?files)"
    using zs by (metis Un_iff pick set_append set_sort subsetI)
  have c2: "?m \<notin> set (dpkg_calls st) \<and> quote ?m \<notin> set (dpkg_calls st)"
  proof -
    have "quote p \<noteq> ?m \<and> quote p \<noteq> quote ?m" if "p \<in> set served" for p
    proof -
      from that inq have "basename p \<noteq> CHECKSUMS_FILE" by auto
      then show ?thesis by (rule quote_not_manifest)
    qed
    then have "a \<noteq> ?m \<and> a \<noteq> quote ?m" if "a \<in> set (dpkg_calls st)" for a
      using that unfolding calls by (metis (no_types, lifting) imageE list.set_map)
    then show ?thesis by blast
  qed
  have c3: "\<exists>n \<in> set names. hd (dpkg_calls st) = quote (destination_full_path loc n)
                 \<and> n \<noteq> CHECKSUMS_FILE
                 \<and> (\<forall>m \<in> set names. m \<noteq> CHECKSUMS_FILE \<longrightarrow> length n \<le> length m)"
    if ne: "dpkg_calls st \<noteq> []"
  proof -
    from ne calls have sne: "served \<noteq> []" by auto
    then have hd: "hd served = hd ?queue" using zs by (cases served) auto
    have hdq: "hd (dpkg_calls st) = quote (hd served)"
      using sne calls by (cases served) auto
    from sne zs have "?queue \<noteq> []" by auto
    then have sel: "filter ?P ?files \<noteq> []" unfolding pick
      by (metis length_0_conv length_sort)
    from hd_sort_key_least [OF sel, of length]
    have mem: "hd ?queue \<in> set (filter ?P ?files)"
      and least: "\<forall>y \<in> set (filter ?P ?files). length (hd ?queue) \<le> length y"
      unfolding pick by auto
    from mem obtain n where n: "n \<in> set names" "n \<noteq> CHECKSUMS_FILE"
      "hd ?queue = destination_full_path loc n"
      unfolding pick by auto
    have "length n \<le> length m" if "m \<in> set names" "m \<noteq> CHECKSUMS_FILE" for m
    proof -
      from that have "destination_full_path loc m \<in> set (filter ?P ?files)"
        unfolding pick by auto
      with least have "length (hd ?queue) \<le> length (destination_full_path loc m)" by blast
      then show ?thesis unfolding n(3) by (simp add: length_destination)
    qed
    with n hd hdq show ?thesis by auto
  qed
  have c4: "e = Completed \<and> dpkg_calls st = map quote ?queue"
    if free: "ps = replicate (length names) Unlocked"
  proof -
    have "length (sort_key length ?files) \<le> length names" by simp
    from install_loop_unlocked [OF this loop [unfolded free]]
    show ?thesis using queue by simp
  qed
  have c5: "dpkg_calls st = take (length (dpkg_calls st)) ?queue"
    if safe: "list_all shell_safe loc \<and> list_all (list_all shell_safe) names"
  proof -
    have "quote p = p" if "p \<in> set served" for p
    proof -
      from that inq obtain n where "n \<in> set names" "p = destination_full_path loc n"
        unfolding pick by auto
      then show ?thesis using safe quote_destination_safe [of loc n]
        by (auto simp: list_all_iff)
    qed
    then have "map quote served = served" by (induction served) auto
    then have "dpkg_calls st = served" using calls by simp
    then show ?thesis using served by metis
  qed
  from c1 c2 c3 c4 c5 show ?thesis by blast
qed

text \<open>The theorem at a batch of the manifest file and two packages, the lock free.\<close>

theorem shortest_name_installed_first_witness:
  "install_files (\<lambda>argument. 0) [Unlocked, Unlocked, Unlocked]
       (map (destination_full_path ''/dl'') sample_downloads)
     = (\<lparr>dpkg_calls = [''/dl/linux-headers-4.9.6_4.9.6_all.deb'',
                       ''/dl/linux-image-4.9.6-generic_4.9.6_amd64.deb''],
         error_occurred = 0, last_error_code = 0, exit_installation = False\<rparr>, Completed)
   \<and> list_all (\<lambda>n. CHR ''/'' \<notin> set n) sample_downloads
   \<and> destination_full_path ''/dl'' CHECKSUMS_FILE \<notin> set (dpkg_calls
         \<lparr>dpkg_calls = [''/dl/linux-headers-4.9.6_4.9.6_all.deb'',
                       ''/dl/linux-image-4.9.6-generic_4.9.6_amd64.deb''],
         error_occurred = 0, last_error_code = 0, exit_installation = False\<rparr>)"
proof -
  let ?st = "\<lparr>dpkg_calls = [''/dl/linux-headers-4.9.6_4.9.6_all.deb'',
                       ''/dl/linux-image-4.9.6-generic_4.9.6_amd64.deb''],
         error_occurred = 0, last_error_code = 0, exit_installation = False\<rparr>"
  have run: "install_files (\<lambda>argument. 0) [Unlocked, Unlocked, Unlocked]
       (map (destination_full_path ''/dl'') sample_downloads) = (?st, Completed)"
    by code_simp
  have plain: "\<forall>n \<in> set sample_downloads. CHR ''/'' \<notin> set n"
    by (simp add: sample_downloads_def)
  have listed: "list_all (\<lambda>n. CHR ''/'' \<notin> set n) sample_downloads"
    using plain by (simp add: list_all_iff)
  have "destination_full_path ''/dl'' CHECKSUMS_FILE \<notin> set (dpkg_calls ?st)"
    by (rule shortest_name_installed_first [OF run plain, THEN conjunct2, THEN conjunct1])
  with run listed show ?thesis by (intro conjI)
qed


end
